theory Spec2Isabelle
  imports Complex_Main "HOL-Library.Log_Nat"
begin

section \<open>Python values\<close>

text \<open>
  The module \<^verbatim>\<open>src/utils/images.py\<close> works on Python integers, Python floats and
  Pillow images. Python integers are unbounded and are modelled by \<open>int\<close>.

  Exceptions are values: a function that can raise returns \<open>error + 'a\<close>, with \<open>Inl\<close>
  for the exception.
\<close>

datatype error = IndexError | ZeroDivisionError | ValueError | OSError

subsection \<open>Floats\<close>

text \<open>
  A Python float is an IEEE 754 double: a real number \<open>m * 2 ^ e\<close> whose mantissa \<open>m\<close>
  has at most 53 bits. Every float operation yields the exact result rounded to the
  nearest double, a tie going to the even mantissa. A float is modelled by the real
  number it stands for, and \<open>rnd\<close> is that rounding. The exponent range of the doubles
  is not modelled: no operation of the module overflows or underflows on colour
  channels from 0 to 255 and on image dimensions below \<open>2 ^ 31\<close>.
\<close>

text \<open>Rounding to the nearest integer, a tie going to the even one.\<close>

definition round_half_even :: "real \<Rightarrow> int" where
  "round_half_even x =
     (let n = \<lfloor>x\<rfloor>; d = x - of_int n
      in if d < 1 / 2 then n else if 1 / 2 < d then n + 1
         else if even n then n else n + 1)"

text \<open>The binary exponent \<open>e\<close> of a positive number \<open>x\<close>: \<open>2 ^ e \<le> x < 2 ^ (e + 1)\<close>.\<close>

definition exponent :: "real \<Rightarrow> int" where
  "exponent x = (if 1 \<le> x then bitlen \<lfloor>x\<rfloor> - 1 else - bitlen (\<lceil>1 / x\<rceil> - 1))"

definition rnd :: "real \<Rightarrow> real" where
  "rnd x =
     (if x = 0 then 0
      else let e = exponent \<bar>x\<bar> - 52
           in of_int (round_half_even (x / 2 powi e)) * 2 powi e)"

text \<open>
  The float operations the module uses: the conversion of an integer operand, the true
  division \<^verbatim>\<open>/\<close> of two integers, the four operations on floats and
  \<^verbatim>\<open>math.sqrt\<close>. The callers check for a zero divisor. A float literal such as
  \<^verbatim>\<open>0.299\<close> is the double nearest to it, \<open>rnd 0.299\<close>.
\<close>

definition float_of_int :: "int \<Rightarrow> real" where
  "float_of_int i = rnd (of_int i)"

definition int_truediv :: "int \<Rightarrow> int \<Rightarrow> real" where
  "int_truediv a b = rnd (of_int a / of_int b)"

definition fadd :: "real \<Rightarrow> real \<Rightarrow> real" where
  "fadd x y = rnd (x + y)"

definition fsub :: "real \<Rightarrow> real \<Rightarrow> real" where
  "fsub x y = rnd (x - y)"

definition fmul :: "real \<Rightarrow> real \<Rightarrow> real" where
  "fmul x y = rnd (x * y)"

definition fdiv :: "real \<Rightarrow> real \<Rightarrow> real" where
  "fdiv x y = rnd (x / y)"

definition math_sqrt :: "real \<Rightarrow> real" where
  "math_sqrt x = rnd (sqrt x)"

text \<open>Python's \<^verbatim>\<open>int(x)\<close> on a float truncates towards zero.\<close>

definition py_int :: "real \<Rightarrow> int" where
  "py_int x = (if 0 \<le> x then \<lfloor>x\<rfloor> else \<lceil>x\<rceil>)"

section \<open>Colours\<close>

text \<open>A colour object exposes its channels as the triple \<^verbatim>\<open>.rgb\<close>.\<close>

record color =
  rgb :: "int \<times> int \<times> int"

section \<open>Pillow images\<close>

text \<open>
  An image is its mode, its size and the operations that produced its pixels. The two
  modes are the ones the module creates: opaque \<open>RGB\<close> and \<open>RGBA\<close> with an alpha
  channel. An image loaded from elsewhere has an empty history.
\<close>

datatype mode = RGB | RGBA

datatype image =
  Image (mode: mode) (width: int) (height: int) (history: "draw_op list")
and draw_op =
    Resized image
  | Cropped image "int \<times> int \<times> int \<times> int"
  | Pasted image "int \<times> int" "image option"
  | TextDrawn "int \<times> int" string "int \<times> int \<times> int"

text \<open>
  \<^verbatim>\<open>Image.new(mode, size)\<close> rejects a negative width or height with ValueError and
  accepts zero.
\<close>

definition Image_new :: "mode \<Rightarrow> int \<times> int \<Rightarrow> error + image" where
  "Image_new m size_arg =
     (if fst size_arg < 0 \<or> snd size_arg < 0 then Inl ValueError
      else Inr (Image m (fst size_arg) (snd size_arg) []))"

text \<open>
  \<^verbatim>\<open>image.resize(size, resample)\<close> returns a copy when the requested size is the
  size of the image; otherwise the resampler rejects a width or height below 1 with
  ValueError, and else produces an image of the requested size in the same mode.
\<close>

definition resize :: "image \<Rightarrow> int \<times> int \<Rightarrow> error + image" where
  "resize im size_arg =
     (if (width im, height im) = size_arg then Inr im
      else if fst size_arg < 1 \<or> snd size_arg < 1 then Inl ValueError
      else Inr (Image (mode im) (fst size_arg) (snd size_arg) [Resized im]))"

text \<open>
  \<^verbatim>\<open>image.crop((left, upper, right, lower))\<close> rejects a box whose right edge is
  left of its left edge, or whose lower edge is above its upper edge; the result has
  the size of the box.
\<close>

definition crop :: "image \<Rightarrow> int \<times> int \<times> int \<times> int \<Rightarrow> error + image" where
  "crop im box =
     (case box of (left, upper, right, lower) \<Rightarrow>
        if right < left \<or> lower < upper then Inl ValueError
        else Inr (Image (mode im) (right - left) (lower - upper) [Cropped im box]))"

text \<open>
  \<^verbatim>\<open>dest.paste(im, (x, y), mask)\<close> changes the pixels of \<open>dest\<close> in place and
  neither its size nor its mode; pixels that fall outside \<open>dest\<close> are dropped. A mask
  without an alpha channel is rejected with ValueError. The model returns the changed
  destination.
\<close>

definition paste :: "image \<Rightarrow> image \<Rightarrow> int \<times> int \<Rightarrow> image option \<Rightarrow> error + image" where
  "paste dest im pos msk =
     (case msk of
        None \<Rightarrow> Inr (Image (mode dest) (width dest) (height dest)
                        (history dest @ [Pasted im pos None]))
      | Some m \<Rightarrow>
          if mode m \<noteq> RGBA then Inl ValueError
          else Inr (Image (mode dest) (width dest) (height dest)
                      (history dest @ [Pasted im pos (Some m)])))"

text \<open>\<^verbatim>\<open>ImageDraw.Draw(im).text(pos, s, font, fill)\<close> draws into \<open>im\<close> in place.\<close>

definition draw_text :: "image \<Rightarrow> int \<times> int \<Rightarrow> string \<Rightarrow> int \<times> int \<times> int \<Rightarrow> image" where
  "draw_text im pos s fill =
     Image (mode im) (width im) (height im) (history im @ [TextDrawn pos s fill])"

section \<open>The module\<close>

text \<open>
  \<^verbatim>\<open>paste_and_save_album_image(bg, cover, display, text)\<close>. The first paste changes
  the caller's \<open>bg\<close> before anything can fail, so the model returns the changed \<open>bg\<close>
  together with the outcome: the canvas written to
  \<^verbatim>\<open>ImageCache/finalImage.png\<close>, or the exception.
\<close>

definition paste_and_save_album_image ::
  "image \<Rightarrow> image \<Rightarrow> int \<times> int \<Rightarrow> image \<Rightarrow> image \<times> (error + image)" where
  "paste_and_save_album_image bg cover display text =
     (let w = fst display;
          h = snd display;
          center_x = py_int (fsub (int_truediv w 2) (int_truediv (width cover) 2));
          center_y = py_int (fsub (int_truediv h 2) (int_truediv (height cover) 2))
      in case paste bg cover (center_x, center_y) None of
           Inl e \<Rightarrow> (bg, Inl e)
         | Inr bg' \<Rightarrow>
             (bg',
              case Image_new RGB (w, h) of
                Inl e \<Rightarrow> Inl e
              | Inr background \<Rightarrow>
                  (case paste background bg' (0, 0) None of
                     Inl e \<Rightarrow> Inl e
                   | Inr background' \<Rightarrow> paste background' text (0, 0) (Some text))))"

text \<open>
  \<^verbatim>\<open>generate_text_image(song_title, artist_name, colors, display, position_x,
  position_y)\<close>; the two positions default to 50 in the source. \<open>font_available\<close> says
  whether \<^verbatim>\<open>./fonts/Rubik.ttf\<close> can be loaded.
\<close>

definition generate_text_image ::
  "bool \<Rightarrow> string \<Rightarrow> string \<Rightarrow> color list \<Rightarrow> int \<times> int \<Rightarrow> int \<Rightarrow> int \<Rightarrow> error + image" where
  "generate_text_image font_available song_title artist_name colors display
       position_x position_y =
     (let w = fst display;
          h = snd display
      in case colors of
           [] \<Rightarrow> Inl IndexError
         | c # _ \<Rightarrow>
             (case rgb c of (r, g, b) \<Rightarrow>
                let text_color =
                      (if fadd (fadd (fmul (float_of_int r) (rnd 0.299))
                                     (fmul (float_of_int g) (rnd 0.587)))
                               (fmul (float_of_int b) (rnd 0.114)) > 186
                       then (0, 0, 0) else (255, 255, 255))
                in case Image_new RGBA (w, h) of
                     Inl e \<Rightarrow> Inl e
                   | Inr text \<Rightarrow>
                       if \<not> font_available then Inl OSError
                       else Inr (draw_text text (position_x, position_y)
                                   (song_title @ [CHR 0x0A] @ artist_name) text_color)))"

definition calculate_relative_luminance :: "color \<Rightarrow> real" where
  "calculate_relative_luminance c =
     (case rgb c of (r, g, b) \<Rightarrow>
        fadd (fadd (fmul (rnd 0.2126) (float_of_int r))
                   (fmul (rnd 0.7152) (float_of_int g)))
             (fmul (rnd 0.0722) (float_of_int b)))"

definition calculate_contrast_ratio :: "color \<Rightarrow> color \<Rightarrow> error + real" where
  "calculate_contrast_ratio color1 color2 =
     (let luminance1 = calculate_relative_luminance color1;
          luminance2 = calculate_relative_luminance color2;
          (luminance1, luminance2) =
            (if luminance2 > luminance1 then (luminance2, luminance1)
             else (luminance1, luminance2))
      in if fadd luminance2 (rnd 0.05) = 0 then Inl ZeroDivisionError
         else Inr (fdiv (fadd luminance1 (rnd 0.05)) (fadd luminance2 (rnd 0.05))))"

definition find_darkest_color :: "color list \<Rightarrow> error + color list" where
  "find_darkest_color colors =
     (case colors of
        c0 # c1 # _ \<Rightarrow>
          (case rgb c0 of (r0, g0, b0) \<Rightarrow>
           case rgb c1 of (r1, g1, b1) \<Rightarrow>
             let distance1 = math_sqrt (float_of_int (r0\<^sup>2 + g0\<^sup>2 + b0\<^sup>2));
                 distance2 = math_sqrt (float_of_int (r1\<^sup>2 + g1\<^sup>2 + b1\<^sup>2))
             in if distance1 > distance2 then Inr [c0, c1] else Inr [c1, c0])
      | _ \<Rightarrow> Inl IndexError)"

definition resize_and_center_image :: "image \<Rightarrow> int \<Rightarrow> int \<Rightarrow> error + image" where
  "resize_and_center_image im target_width target_height =
     (if height im = 0 then Inl ZeroDivisionError
      else
        let aspect_ratio = int_truediv (width im) (height im);
            new_height = target_height;
            new_width = py_int aspect_ratio * new_height
        in case resize im (new_width, new_height) of
             Inl e \<Rightarrow> Inl e
           | Inr resized_image \<Rightarrow>
               if new_width > target_width
               then let x_offset = (new_width - target_width) div 2
                    in crop resized_image
                         (x_offset, 0, x_offset + target_width, new_height)
               else Inr resized_image)"

section \<open>Notions the properties are stated with\<close>

text \<open>
  The exact Euclidean distance of a colour from black; \<open>find_darkest_color\<close> computes
  its double for each of its two colours, under the comment
  \<^verbatim>\<open>#distance from black\<close>.
\<close>

definition distance_from_black :: "color \<Rightarrow> real" where
  "distance_from_black c =
     (case rgb c of (r, g, b) \<Rightarrow> sqrt (real_of_int (r\<^sup>2 + g\<^sup>2 + b\<^sup>2)))"

text \<open>A colour of the data model has its three channels in the range 0 to 255.\<close>

definition valid_color :: "color \<Rightarrow> bool" where
  "valid_color c =
     (case rgb c of (r, g, b) \<Rightarrow>
        0 \<le> r \<and> r \<le> 255 \<and> 0 \<le> g \<and> g \<le> 255 \<and> 0 \<le> b \<and> b \<le> 255)"

text \<open>
  The brightness that \<open>generate_text_image\<close> compares with 186, as a function of the
  three channels of the first palette entry.
\<close>

definition text_brightness :: "int \<Rightarrow> int \<Rightarrow> int \<Rightarrow> real" where
  "text_brightness r g b =
     fadd (fadd (fmul (float_of_int r) (rnd 0.299)) (fmul (float_of_int g) (rnd 0.587)))
          (fmul (float_of_int b) (rnd 0.114))"

text \<open>
  The colours whose exact weighted sum 0.299 R + 0.587 G + 0.114 B is 186 are the
  solutions of 299 R + 587 G + 114 B = 186000. In a solution \<open>R\<close> is congruent to
  53 (186000 - 587 G) modulo 114, so a solution is given by \<open>G\<close> and the quotient \<open>q\<close>
  of \<open>R\<close> by 114. \<open>tie_check g q\<close> says that the colour given by \<open>g\<close> and \<open>q\<close>, if its
  channels are in range and it is not (170, 226, 22), has a brightness of at most 186.
\<close>

definition tie_check :: "int \<Rightarrow> int \<Rightarrow> bool" where
  "tie_check g q =
     (let r = (53 * (186000 - 587 * g)) mod 114 + 114 * q;
          m = 186000 - 587 * g - 299 * r;
          b = m div 114
      in if r \<le> 255 \<and> 0 \<le> m \<and> b \<le> 255 \<and> \<not> (r = 170 \<and> g = 226)
         then text_brightness r g b \<le> 186 else True)"

section \<open>Rounding to the nearest double\<close>

text \<open>
  Four values as Python prints them: the double of 0.1, the sum \<^verbatim>\<open>0.1 + 0.2\<close>
  (0.30000000000000004), and two integers above \<open>2 ^ 53\<close>, the first a tie.
\<close>

lemma rnd_examples:
  "rnd 0.1 = 3602879701896397 / 2 ^ 55"
  "fadd (rnd 0.1) (rnd 0.2) = 1351079888211149 / 2 ^ 52"
  "float_of_int (2 ^ 53 + 1) = 2 ^ 53"
  "float_of_int (2 ^ 53 + 3) = 2 ^ 53 + 4"
  by (simp_all add: fadd_def float_of_int_def rnd_def exponent_def compute_bitlen
        round_half_even_def Let_def power_int_minus_divide)

lemma pow2_less_iff: "(2::real) powi a < 2 powi b \<longleftrightarrow> a < b"
proof
  assume "(2::real) powi a < 2 powi b"
  show "a < b"
  proof (rule ccontr)
    assume "\<not> a < b"
    then have "(2::real) powi b \<le> 2 powi a" by (intro power_int_increasing) auto
    with \<open>(2::real) powi a < 2 powi b\<close> show False by simp
  qed
next
  assume "a < b"
  then show "(2::real) powi a < 2 powi b" by (intro power_int_strict_increasing) auto
qed

lemma pow2_le_iff: "(2::real) powi a \<le> 2 powi b \<longleftrightarrow> a \<le> b"
  using pow2_less_iff[of b a] by (auto simp: not_less[symmetric])

lemma pow2_le_of_int: "(2::real) ^ n \<le> of_int k \<longleftrightarrow> 2 ^ n \<le> k"
  using of_int_le_iff[of "2 ^ n" k, where ?'a = real] by simp

lemma of_int_le_pow2: "real_of_int k \<le> 2 ^ n \<longleftrightarrow> k \<le> 2 ^ n"
  using of_int_le_iff[of k "2 ^ n", where ?'a = real] by simp

lemma of_int_less_pow2: "real_of_int k < 2 ^ n \<longleftrightarrow> k < 2 ^ n"
  using of_int_less_iff[of k "2 ^ n", where ?'a = real] by simp

lemma exponent_bounds:
  assumes "0 < x"
  shows "2 powi exponent x \<le> x" and "x < 2 powi (exponent x + 1)"
proof -
  have "2 powi exponent x \<le> x \<and> x < 2 powi (exponent x + 1)"
  proof (cases "1 \<le> x")
    case True
    define n where "n = \<lfloor>x\<rfloor>"
    have n: "0 < n" using True by (simp add: n_def)
    have b: "1 \<le> bitlen n" using n by (simp add: bitlen_alt_def)
    have e: "exponent x = bitlen n - 1" using True by (simp add: exponent_def n_def)
    from bitlen_bounds[OF n] have lo: "2 ^ nat (bitlen n - 1) \<le> n" and hi: "n < 2 ^ nat (bitlen n)"
      by auto
    have "real_of_int (2 ^ nat (bitlen n - 1)) \<le> real_of_int n" using lo by linarith
    also have "\<dots> \<le> x" by (simp add: n_def)
    finally have 1: "2 powi (bitlen n - 1) \<le> x"
      using b by (simp add: power_int_nonneg_exp)
    have "n + 1 \<le> 2 ^ nat (bitlen n)" using hi by simp
    then have "real_of_int (n + 1) \<le> real_of_int (2 ^ nat (bitlen n))" by linarith
    moreover have "x < real_of_int (n + 1)" by (simp add: n_def)
    ultimately have 2: "x < 2 powi (bitlen n)"
      using b by (simp add: power_int_nonneg_exp)
    show ?thesis using 1 2 e by simp
  next
    case False
    define y where "y = 1 / x"
    define n where "n = \<lceil>y\<rceil> - 1"
    have y: "1 < y" using False assms by (simp add: y_def)
    have n: "0 < n" using y by (simp add: n_def less_ceiling_iff)
    have b: "1 \<le> bitlen n" using n by (simp add: bitlen_alt_def)
    have e: "exponent x = - bitlen n" using False by (simp add: exponent_def n_def y_def)
    from bitlen_bounds[OF n] have lo: "2 ^ nat (bitlen n - 1) \<le> n" and hi: "n < 2 ^ nat (bitlen n)"
      by auto
    have ny: "real_of_int n < y" "y \<le> real_of_int n + 1"
      by (simp_all add: n_def) linarith+
    have "y \<le> real_of_int (n + 1)" using ny by simp
    also have "\<dots> \<le> real_of_int (2 ^ nat (bitlen n))" using hi by linarith
    finally have "y \<le> 2 ^ nat (bitlen n)" by simp
    then have "1 / 2 ^ nat (bitlen n) \<le> x"
      using assms by (simp add: y_def field_simps)
    then have 1: "2 powi (- bitlen n) \<le> x"
      using b by (simp add: power_int_minus_divide power_int_nonneg_exp)
    have "(2::real) ^ nat (bitlen n - 1) \<le> real_of_int n"
      using lo of_int_le_iff[of "2 ^ nat (bitlen n - 1)" n, where ?'a = real] by simp
    then have "2 ^ nat (bitlen n - 1) < y" using ny by linarith
    then have "x < 1 / 2 ^ nat (bitlen n - 1)"
      using assms by (simp add: y_def field_simps)
    moreover have "2 powi (- bitlen n + 1) = (1::real) / 2 ^ nat (bitlen n - 1)"
    proof -
      have "- bitlen n + 1 = - (bitlen n - 1)" by simp
      then show ?thesis using b
        by (simp only: power_int_minus_divide) (simp add: power_int_nonneg_exp)
    qed
    ultimately have 2: "x < 2 powi (- bitlen n + 1)" by simp
    show ?thesis using 1 2 e by simp
  qed
  then show "2 powi exponent x \<le> x" and "x < 2 powi (exponent x + 1)" by auto
qed

lemma exponent_unique:
  assumes "2 powi k \<le> x" and "x < 2 powi (k + 1)"
  shows "exponent x = k"
proof -
  have x: "0 < x" using assms(1) by (rule less_le_trans[rotated]) simp
  note b = exponent_bounds[OF x]
  have "2 powi k < (2::real) powi (exponent x + 1)" using assms(1) b(2) by linarith
  then have 1: "k < exponent x + 1" by (simp only: pow2_less_iff)
  have "2 powi exponent x < (2::real) powi (k + 1)" using assms(2) b(1) by linarith
  then have 2: "exponent x < k + 1" by (simp only: pow2_less_iff)
  show ?thesis using 1 2 by simp
qed


lemma round_half_even_of_int [simp]: "round_half_even (of_int n) = n"
  by (simp add: round_half_even_def)

lemma round_half_even_mono:
  assumes "x \<le> y"
  shows "round_half_even x \<le> round_half_even y"
proof (cases "\<lfloor>x\<rfloor> < \<lfloor>y\<rfloor>")
  case True
  have "round_half_even x \<le> \<lfloor>x\<rfloor> + 1" by (simp add: round_half_even_def Let_def)
  moreover have "\<lfloor>y\<rfloor> \<le> round_half_even y" by (simp add: round_half_even_def Let_def)
  ultimately show ?thesis using True by linarith
next
  case False
  then have eq: "\<lfloor>x\<rfloor> = \<lfloor>y\<rfloor>" using floor_mono[OF assms] by linarith
  have "x - of_int \<lfloor>y\<rfloor> \<le> y - of_int \<lfloor>y\<rfloor>" using assms by simp
  then show ?thesis by (auto simp: round_half_even_def Let_def eq)
qed

lemma round_half_even_minus: "round_half_even (- x) = - round_half_even x"
proof (cases "x \<in> \<int>")
  case True
  then obtain n where "x = of_int n" by (auto elim: Ints_cases)
  then have "- x = of_int (- n)" by simp
  then show ?thesis using \<open>x = of_int n\<close> by (simp only: round_half_even_of_int)
next
  case False
  then have "x \<noteq> of_int \<lfloor>x\<rfloor>" by (metis Ints_of_int)
  then have f: "\<lfloor>- x\<rfloor> = - \<lfloor>x\<rfloor> - 1"
    by (simp add: floor_minus ceiling_altdef)
  have d: "- x - of_int (- \<lfloor>x\<rfloor> - 1) = 1 - (x - of_int \<lfloor>x\<rfloor>)" by simp
  show ?thesis
    unfolding round_half_even_def Let_def f d by auto
qed

lemma rnd_zero [simp]: "rnd 0 = 0"
  by (simp add: rnd_def)

lemma rnd_minus: "rnd (- x) = - rnd x"
  by (simp add: rnd_def Let_def round_half_even_minus)

lemma rnd_pos_bounds:
  assumes "0 < x"
  shows "2 powi exponent x \<le> rnd x" and "rnd x \<le> 2 powi (exponent x + 1)"
proof -
  define e where "e = exponent x - 52"
  have p: "(0::real) < 2 powi e" by simp
  have r: "rnd x = of_int (round_half_even (x / 2 powi e)) * 2 powi e"
    using assms by (simp add: rnd_def e_def Let_def)
  have lo: "2 powi exponent x = (2::real) ^ 52 * 2 powi e"
    and hi: "2 powi (exponent x + 1) = (2::real) ^ 53 * 2 powi e"
    by (simp_all add: e_def power_int_diff power_int_add)
  have "2 ^ 52 * 2 powi e \<le> x" and "x \<le> 2 ^ 53 * 2 powi e"
    using exponent_bounds[OF assms] unfolding lo hi by linarith+
  then have "2 ^ 52 \<le> x / 2 powi e" and "x / 2 powi e \<le> 2 ^ 53"
    using p by (simp_all add: pos_le_divide_eq pos_divide_le_eq)
  then have "round_half_even (of_int (2 ^ 52)) \<le> round_half_even (x / 2 powi e)"
    and "round_half_even (x / 2 powi e) \<le> round_half_even (of_int (2 ^ 53))"
    by (simp_all add: round_half_even_mono)
  then have "2 ^ 52 \<le> round_half_even (x / 2 powi e)"
    and "round_half_even (x / 2 powi e) \<le> 2 ^ 53"
    by (simp_all only: round_half_even_of_int)
  then have "(2::real) ^ 52 \<le> of_int (round_half_even (x / 2 powi e))"
    and "real_of_int (round_half_even (x / 2 powi e)) \<le> 2 ^ 53"
    by (simp_all only: pow2_le_of_int of_int_le_pow2)
  then show "2 powi exponent x \<le> rnd x" and "rnd x \<le> 2 powi (exponent x + 1)"
    using p by (simp_all add: r lo hi)
qed

lemma exponent_mono:
  assumes "0 < x" and "x \<le> y"
  shows "exponent x \<le> exponent y"
proof -
  have y: "0 < y" using assms by simp
  have "2 powi exponent x \<le> x" using exponent_bounds(1)[OF assms(1)] .
  also have "x \<le> y" by fact
  also have "y < 2 powi (exponent y + 1)" using exponent_bounds(2)[OF y] .
  finally have "exponent x < exponent y + 1" by (simp only: pow2_less_iff)
  then show ?thesis by simp
qed

lemma rnd_mono_pos:
  assumes "0 < x" and "x \<le> y"
  shows "rnd x \<le> rnd y"
proof (cases "exponent x = exponent y")
  case True
  have y: "0 < y" using assms by simp
  have "x / 2 powi (exponent y - 52) \<le> y / 2 powi (exponent y - 52)"
    using assms by (simp add: divide_right_mono)
  then have "round_half_even (x / 2 powi (exponent y - 52))
      \<le> round_half_even (y / 2 powi (exponent y - 52))"
    by (rule round_half_even_mono)
  then show ?thesis using assms y True
    by (simp add: rnd_def Let_def)
next
  case False
  have y: "0 < y" using assms by simp
  have "exponent x + 1 \<le> exponent y" using False exponent_mono[OF assms] by simp
  then have "(2::real) powi (exponent x + 1) \<le> 2 powi exponent y"
    by (simp only: pow2_le_iff)
  then show ?thesis
    using rnd_pos_bounds(2)[OF assms(1)] rnd_pos_bounds(1)[OF y] by linarith
qed

lemma rnd_nonneg: "0 \<le> x \<Longrightarrow> 0 \<le> rnd x"
proof -
  assume "0 \<le> x"
  show ?thesis
  proof (cases "x = 0")
    case False
    then have "0 < x" using \<open>0 \<le> x\<close> by simp
    from rnd_pos_bounds(1)[OF this] show ?thesis
      by (rule order_trans[rotated]) simp
  qed simp
qed

lemma rnd_mono:
  assumes "x \<le> y"
  shows "rnd x \<le> rnd y"
proof -
  consider "0 < x" | "x = 0" | "x < 0" "0 \<le> y" | "x < 0" "y < 0" by linarith
  then show ?thesis
  proof cases
    case 1
    then show ?thesis using assms by (rule rnd_mono_pos)
  next
    case 2
    then show ?thesis using assms by (simp add: rnd_nonneg)
  next
    case 3
    have "0 \<le> rnd (- x)" using 3 by (intro rnd_nonneg) simp
    then have "rnd x \<le> 0" by (simp add: rnd_minus)
    then show ?thesis using rnd_nonneg[OF 3(2)] by linarith
  next
    case 4
    have "rnd (- y) \<le> rnd (- x)" using 4 assms by (intro rnd_mono_pos) simp_all
    then show ?thesis by (simp add: rnd_minus)
  qed
qed

lemma rnd_representable_pos:
  assumes "0 < m" and "m < 2 ^ 53"
  shows "rnd (of_int m * 2 powi k) = of_int m * 2 powi k"
proof -
  define x :: real where "x = of_int m * 2 powi k"
  define E where "E = exponent x"
  have x: "0 < x" using assms by (simp add: x_def)
  have "2 powi E \<le> x" using exponent_bounds(1)[OF x] by (simp add: E_def)
  also have "x < 2 ^ 53 * 2 powi k"
    using assms by (simp add: x_def) 
  also have "\<dots> = 2 powi (53 + k)" by (simp add: power_int_add)
  finally have "E < 53 + k" by (simp only: pow2_less_iff)
  then have d: "0 \<le> k - (E - 52)" by simp
  have "x / 2 powi (E - 52) = of_int m * 2 powi (k - (E - 52))"
    by (simp add: x_def power_int_diff)
  also have "\<dots> = of_int (m * 2 ^ nat (k - (E - 52)))"
    using d by (simp add: power_int_nonneg_exp)
  finally have q: "x / 2 powi (E - 52) = of_int (m * 2 ^ nat (k - (E - 52)))" .
  have "rnd x = of_int (round_half_even (x / 2 powi (E - 52))) * 2 powi (E - 52)"
    using x by (simp add: rnd_def Let_def E_def)
  also have "\<dots> = x / 2 powi (E - 52) * 2 powi (E - 52)"
    unfolding q round_half_even_of_int ..
  also have "\<dots> = x" by simp
  finally show ?thesis by (simp add: x_def)
qed

lemma rnd_representable:
  assumes "\<bar>m\<bar> < 2 ^ 53"
  shows "rnd (of_int m * 2 powi k) = of_int m * 2 powi k"
proof -
  consider "0 < m" | "m = 0" | "m < 0" by linarith
  then show ?thesis
  proof cases
    case 1
    then show ?thesis using assms by (intro rnd_representable_pos) auto
  next
    case 2
    then show ?thesis by simp
  next
    case 3
    then have "rnd (of_int (- m) * 2 powi k) = of_int (- m) * 2 powi k"
      using assms by (intro rnd_representable_pos) auto
    then have "rnd (- (of_int m * 2 powi k)) = - (of_int m * 2 powi k)" by simp
    then show ?thesis by (simp add: rnd_minus)
  qed
qed

lemma rnd_of_int: "\<bar>m\<bar> < 2 ^ 53 \<Longrightarrow> rnd (of_int m) = of_int m"
  using rnd_representable[of m 0] by simp

section \<open>Quotients and half differences of image dimensions\<close>

text \<open>
  Truncating the double quotient of two integers below \<open>2 ^ 51\<close> gives their integer
  quotient: the exact quotient lies between \<open>a div b\<close> and a double just below
  \<open>a div b + 1\<close>, and rounding is monotone.
\<close>

lemma py_int_truediv:
  assumes "0 \<le> a" and "0 < b" and "a < 2 ^ 51" and "b < 2 ^ 51"
  shows "py_int (int_truediv a b) = a div b"
proof -
  define k where "k = a div b"
  define J where "J = nat (bitlen b)"
  define q where "q = real_of_int a / real_of_int b"
  have k0: "0 \<le> k" using assms by (simp add: k_def pos_imp_zdiv_nonneg_iff)
  have j1: "1 \<le> bitlen b" using assms by (simp add: bitlen_alt_def)
  from bitlen_bounds[OF assms(2)]
  have blo: "2 ^ nat (bitlen b - 1) \<le> b" and bhi: "b < 2 ^ J" by (auto simp: J_def)
  have "2 ^ J = 2 * (2::int) ^ nat (bitlen b - 1)"
    using j1 by (simp add: J_def flip: power_Suc)
  then have J2: "2 ^ J \<le> 2 * b" using blo by simp
  have am: "a = k * b + a mod b" by (simp add: k_def)
  have m: "0 \<le> a mod b" "a mod b < b" using assms by simp_all
  have kb: "k * b \<le> a" using am m by linarith
  have "(k + 1) * b = k * b + b" by (simp add: algebra_simps)
  then have ab: "a + 1 \<le> (k + 1) * b" using am m by linarith
  have ka: "k \<le> a"
  proof -
    have "k * 1 \<le> k * b" using k0 assms by (intro mult_left_mono) auto
    then show ?thesis using kb by simp
  qed
  \<comment> \<open>the quotient lies between \<open>k\<close> and a double just below \<open>k + 1\<close>\<close>
  have bpos: "0 < real_of_int b" using assms by simp
  have "real_of_int (k * b) \<le> real_of_int a" using kb by linarith
  then have lo: "real_of_int k \<le> q"
    using bpos by (simp add: q_def pos_le_divide_eq)
  define m' where "m' = (k + 1) * 2 ^ J - 1"
  define g where "g = real_of_int m' * 2 powi (- int J)"
  have g_eq: "g = real_of_int (k + 1) - 1 / 2 ^ J"
    by (simp add: g_def m'_def power_int_minus_divide field_simps)
  have "real_of_int (a + 1) \<le> real_of_int ((k + 1) * b)" using ab by linarith
  then have "q + 1 / real_of_int b \<le> real_of_int (k + 1)"
    using bpos by (simp add: q_def field_simps)
  moreover have "1 / 2 ^ J < 1 / real_of_int b"
  proof -
    have "real_of_int b < 2 ^ J" using bhi by (simp only: of_int_less_pow2)
    then show ?thesis using bpos by (simp add: field_simps)
  qed
  ultimately have hi: "q \<le> g" unfolding g_eq by linarith
  have m'0: "0 \<le> m'"
  proof -
    have "1 * 1 \<le> (k + 1) * 2 ^ J" using k0 by (intro mult_mono) auto
    then show ?thesis by (simp add: m'_def)
  qed
  have m'53: "m' < 2 ^ 53"
  proof -
    have "k * 2 ^ J \<le> k * (2 * b)" using k0 J2 by (intro mult_left_mono) auto
    also have "\<dots> = 2 * (k * b)" by simp
    also have "\<dots> \<le> 2 * a" using kb by simp
    finally have "(k + 1) * 2 ^ J \<le> 2 * a + 2 * b" using J2 by (simp add: algebra_simps)
    then show ?thesis using assms by (simp add: m'_def)
  qed
  have rg: "rnd g = g"
    unfolding g_def using m'0 m'53 by (intro rnd_representable) simp
  have rk: "rnd (real_of_int k) = real_of_int k"
    using k0 ka assms by (intro rnd_of_int) simp
  have 1: "real_of_int k \<le> rnd q" using rnd_mono[OF lo] rk by simp
  have "rnd q \<le> g" using rnd_mono[OF hi] rg by simp
  moreover have "g < real_of_int (k + 1)" unfolding g_eq by simp
  ultimately have 2: "rnd q < real_of_int k + 1" by simp
  have "0 \<le> rnd q" using 1 k0 by linarith
  moreover have "\<lfloor>rnd q\<rfloor> = k" using 1 2 by linarith
  ultimately show ?thesis by (simp add: py_int_def int_truediv_def q_def k_def)
qed


text \<open>Halves of integers, and differences of such halves, are doubles: no rounding occurs.\<close>

lemma int_truediv_2:
  assumes "\<bar>a\<bar> < 2 ^ 53"
  shows "int_truediv a 2 = real_of_int a / 2"
proof -
  have "rnd (real_of_int a * 2 powi (- 1)) = real_of_int a * 2 powi (- 1)"
    using assms by (rule rnd_representable)
  then show ?thesis by (simp add: int_truediv_def power_int_minus_divide)
qed

lemma half_difference_exact:
  assumes "\<bar>a\<bar> < 2 ^ 52" and "\<bar>b\<bar> < 2 ^ 52"
  shows "fsub (int_truediv a 2) (int_truediv b 2) = real_of_int a / 2 - real_of_int b / 2"
proof -
  have "\<bar>a - b\<bar> < 2 ^ 53" using assms by simp
  then have "rnd (real_of_int (a - b) * 2 powi (- 1)) = real_of_int (a - b) * 2 powi (- 1)"
    by (rule rnd_representable)
  moreover have "real_of_int (a - b) * 2 powi (- 1) = real_of_int a / 2 - real_of_int b / 2"
    by (simp add: power_int_minus_divide field_simps)
  ultimately have d: "rnd (real_of_int a / 2 - real_of_int b / 2)
      = real_of_int a / 2 - real_of_int b / 2"
    by (simp only:)
  have "int_truediv a 2 = real_of_int a / 2" "int_truediv b 2 = real_of_int b / 2"
    using assms by (simp_all add: int_truediv_2)
  then show ?thesis unfolding fsub_def using d by (simp only:)
qed

section \<open>Square roots of sums of squares\<close>

text \<open>
  Up to a million, the doubles of the square roots of two different integers differ: two
  multiples of \<open>2 ^ - 12\<close>, which are doubles, lie between the two square roots.
\<close>

lemma math_sqrt_mono:
  "0 \<le> n \<Longrightarrow> n \<le> m \<Longrightarrow> m < 2 ^ 53 \<Longrightarrow>
     math_sqrt (float_of_int n) \<le> math_sqrt (float_of_int m)"
  by (simp add: math_sqrt_def float_of_int_def rnd_of_int rnd_mono)

lemma math_sqrt_strict_mono:
  assumes "0 \<le> n" and "n < m" and "m \<le> 1000000"
  shows "math_sqrt (float_of_int n) < math_sqrt (float_of_int m)"
proof -
  define s where "s = sqrt (real_of_int n)"
  define t where "t = sqrt (real_of_int m)"
  define k where "k = \<lceil>s * 2 ^ 12\<rceil>"
  define g1 where "g1 = real_of_int k * 2 powi (- 12)"
  define g2 where "g2 = real_of_int (k + 1) * 2 powi (- 12)"
  have s0: "0 \<le> s" using assms by (simp add: s_def)
  have s2: "s\<^sup>2 = real_of_int n" using assms by (simp add: s_def)
  have "real_of_int n \<le> 1000\<^sup>2" using assms by simp
  then have s1000: "s \<le> 1000" unfolding s_def by (intro real_le_lsqrt) simp_all
  have k0: "0 \<le> k" using s0 by (simp add: k_def)
  have kk: "s * 2 ^ 12 \<le> real_of_int k" "real_of_int k < s * 2 ^ 12 + 1"
    unfolding k_def by linarith+
  have "real_of_int k < 1000 * 2 ^ 12 + 1" using kk s1000 by simp
  then have kb: "k + 1 < 2 ^ 53" by simp
  have r1: "rnd g1 = g1" unfolding g1_def using k0 kb by (intro rnd_representable) simp
  have r2: "rnd g2 = g2" unfolding g2_def using k0 kb by (intro rnd_representable) simp
  have sg1: "s \<le> g1" using kk by (simp add: g1_def power_int_minus_divide field_simps)
  have g12: "g1 < g2" by (simp add: g1_def g2_def)
  have g2s: "g2 \<le> s + 1 / 2 ^ 11"
    using kk by (simp add: g2_def power_int_minus_divide field_simps)
  have "(s + 1 / 2 ^ 11)\<^sup>2 = s\<^sup>2 + s / 2 ^ 10 + 1 / 2 ^ 22"
    by (simp add: power2_sum field_simps)
  also have "\<dots> \<le> real_of_int n + 1" using s1000 by (simp add: s2)
  also have "\<dots> \<le> real_of_int m" using assms by simp
  finally have "s + 1 / 2 ^ 11 \<le> t" unfolding t_def by (rule real_le_rsqrt)
  then have g2t: "g2 \<le> t" using g2s by simp
  have "rnd s \<le> g1" using rnd_mono[OF sg1] r1 by simp
  moreover have "g2 \<le> rnd t" using rnd_mono[OF g2t] r2 by simp
  ultimately have "rnd s < rnd t" using g12 by linarith
  moreover have "float_of_int n = real_of_int n" "float_of_int m = real_of_int m"
    using assms by (simp_all add: float_of_int_def rnd_of_int)
  ultimately show ?thesis by (simp add: math_sqrt_def s_def t_def)
qed

section \<open>The rounding error\<close>

lemma round_half_even_error: "\<bar>real_of_int (round_half_even t) - t\<bar> \<le> 1 / 2"
proof -
  have "real_of_int \<lfloor>t\<rfloor> \<le> t" "t < real_of_int \<lfloor>t\<rfloor> + 1" by linarith+
  then show ?thesis by (auto simp: round_half_even_def Let_def)
qed

lemma rnd_error: "\<bar>rnd x - x\<bar> \<le> \<bar>x\<bar> / 2 ^ 53"
proof (cases "x = 0")
  case False
  define e where "e = exponent \<bar>x\<bar> - 52"
  define t where "t = x / 2 powi e"
  have p: "(0::real) < 2 powi e" by simp
  have x: "x = t * 2 powi e" by (simp add: t_def)
  have r: "rnd x = real_of_int (round_half_even t) * 2 powi e"
    using False by (simp add: rnd_def e_def t_def Let_def)
  have "rnd x - x = real_of_int (round_half_even t) * 2 powi e - t * 2 powi e"
    using r x by (simp only:)
  then have "rnd x - x = (real_of_int (round_half_even t) - t) * 2 powi e"
    by (simp add: algebra_simps)
  then have "\<bar>rnd x - x\<bar> = \<bar>real_of_int (round_half_even t) - t\<bar> * 2 powi e"
    by (simp add: abs_mult)
  also have "\<dots> \<le> 1 / 2 * 2 powi e"
    using round_half_even_error[of t] p by (intro mult_right_mono) auto
  finally have 1: "\<bar>rnd x - x\<bar> \<le> 2 powi e / 2" by simp
  have "2 powi exponent \<bar>x\<bar> \<le> \<bar>x\<bar>" using False by (intro exponent_bounds) simp
  moreover have "2 powi exponent \<bar>x\<bar> = (2::real) ^ 52 * 2 powi e"
    by (simp add: e_def power_int_diff)
  ultimately have "2 powi e / 2 \<le> \<bar>x\<bar> / 2 ^ 53" by simp
  with 1 show ?thesis by linarith
qed simp


section \<open>The geometry resizer\<close>

lemma resize_sizes:
  "resize im (w, h) = Inr out \<Longrightarrow> width out = w \<and> height out = h"
  by (auto simp: resize_def split: if_splits)

lemma resize_ok:
  "1 \<le> w \<Longrightarrow> 1 \<le> h \<Longrightarrow> \<exists>out. resize im (w, h) = Inr out"
  by (auto simp: resize_def)

text \<open>
  C1, as stated, at a square 300 by 300 source and a 300 by 300 target: the truncated
  aspect ratio times the target height is 300, which does not exceed the target width,
  the resized image is returned as it is, and its width is the target width all the same.
\<close>

theorem resize_and_center_equal_width_counterexample:
  "resize_and_center_image (Image RGB 300 300 []) 300 300 = Inr (Image RGB 300 300 [])
   \<and> width (Image RGB 300 300 []) = 300
   \<and> \<not> (300 < py_int (int_truediv 300 300) * (300::int))"
  by (simp add: resize_and_center_image_def py_int_truediv resize_def)

text \<open>
  C1, amended. For a source image of positive width and height (below \<open>2 ^ 31\<close>, as
  Pillow keeps them in C ints) and positive target dimensions: when the source is at
  least as wide as it is high, an image is returned; and every image that is returned has
  height \<open>target_height\<close> and width the smaller of \<open>target_width\<close> and the truncated
  aspect ratio times \<open>target_height\<close>, so its width is \<open>target_width\<close> exactly when that
  product is at least \<open>target_width\<close>.
\<close>

theorem resize_and_center_size:
  assumes "0 < width im" and "width im < 2 ^ 31"
    and "0 < height im" and "height im < 2 ^ 31"
    and "0 < target_width" and "0 < target_height"
  shows "(height im \<le> width im \<longrightarrow>
            (\<exists>out. resize_and_center_image im target_width target_height = Inr out))
       \<and> (\<forall>out. resize_and_center_image im target_width target_height = Inr out \<longrightarrow>
            height out = target_height
          \<and> width out = min ((width im div height im) * target_height) target_width
          \<and> (width out = target_width
               \<longleftrightarrow> target_width \<le> (width im div height im) * target_height))"
proof -
  let ?nw = "(width im div height im) * target_height"
  have q: "py_int (int_truediv (width im) (height im)) = width im div height im"
    using assms by (intro py_int_truediv) simp_all
  have unfold: "resize_and_center_image im target_width target_height =
      (case resize im (?nw, target_height) of
         Inl e \<Rightarrow> Inl e
       | Inr resized_image \<Rightarrow>
           if ?nw > target_width
           then crop resized_image
                  ((?nw - target_width) div 2, 0,
                   (?nw - target_width) div 2 + target_width, target_height)
           else Inr resized_image)"
    using assms by (simp add: resize_and_center_image_def q Let_def split: sum.splits)
  have total: "\<exists>out. resize_and_center_image im target_width target_height = Inr out"
    if "height im \<le> width im"
  proof -
    have "0 < width im div height im"
      using that assms by (simp add: pos_imp_zdiv_pos_iff)
    then have "0 < ?nw"
      using assms by (intro mult_pos_pos) auto
    then have "1 \<le> ?nw" by simp
    then obtain r where r: "resize im (?nw, target_height) = Inr r"
      using resize_ok[of ?nw target_height im] assms by auto
    show ?thesis
      using assms by (simp add: unfold r crop_def)
  qed
  have partial: "height out = target_height
          \<and> width out = min ?nw target_width
          \<and> (width out = target_width \<longleftrightarrow> target_width \<le> ?nw)"
    if "resize_and_center_image im target_width target_height = Inr out" for out
  proof -
    from that obtain r where r: "resize im (?nw, target_height) = Inr r"
      by (auto simp: unfold split: sum.splits)
    have rs: "width r = ?nw" "height r = target_height"
      using resize_sizes[OF r] by auto
    show ?thesis
      using that rs assms by (auto simp: unfold r crop_def split: if_splits)
  qed
  show ?thesis using total partial by blast
qed

theorem resize_and_center_size_witness:
  "0 < width (Image RGB 800 300 []) \<and> width (Image RGB 800 300 []) < 2 ^ 31
   \<and> 0 < height (Image RGB 800 300 []) \<and> height (Image RGB 800 300 []) < 2 ^ 31
   \<and> (0::int) < 500 \<and> (0::int) < 300
   \<and> (\<exists>out. resize_and_center_image (Image RGB 800 300 []) 500 300 = Inr out
          \<and> height out = 300 \<and> width out = 500)"
  using resize_and_center_size[of "Image RGB 800 300 []" 500 300] by auto

text \<open>
  C2. A 400 by 300 source with target width 200 and target height 300: the aspect ratio
  truncates to 1, the new width is 300, the source is resized to 300 by 300, and since
  300 exceeds 200 the result is the centre crop from column 50 to column 250, of size
  200 by 300.
\<close>

theorem resize_and_center_400x300:
  "py_int (int_truediv 400 300) * 300 = (300::int)
   \<and> resize_and_center_image (Image m 400 300 hs) 200 300 =
       Inr (Image m 200 300
              [Cropped (Image m 300 300 [Resized (Image m 400 300 hs)]) (50, 0, 250, 300)])"
  by (simp add: resize_and_center_image_def py_int_truediv resize_def crop_def)

text \<open>
  C10, as stated, at a 300 by 400 portrait source with target 200 by 300: the new width
  is 0, the resize to width 0 is rejected, and the function raises ValueError instead of
  returning an image of width 0.
\<close>

theorem portrait_resize_counterexample:
  "py_int (int_truediv 300 400) * (300::int) = 0
   \<and> resize_and_center_image (Image RGB 300 400 []) 200 300 = Inl ValueError"
  by (simp add: resize_and_center_image_def py_int_truediv resize_def)

text \<open>
  C10, amended. For every source image that is less wide than high and every positive
  target width, the aspect ratio truncates to 0 and the new width is 0. The resize to
  width 0 is rejected with ValueError, so no image is returned; only a source of width 0
  whose height already is the target height comes back, unchanged.
\<close>

theorem portrait_resize_rejected:
  assumes "0 \<le> width im" and "width im < height im" and "height im < 2 ^ 31"
    and "0 < target_width"
  shows "py_int (int_truediv (width im) (height im)) = 0
       \<and> resize_and_center_image im target_width target_height =
           (if width im = 0 \<and> target_height = height im then Inr im else Inl ValueError)"
proof -
  have q: "py_int (int_truediv (width im) (height im)) = 0"
    using assms by (subst py_int_truediv) (simp_all add: div_pos_pos_trivial)
  have "resize_and_center_image im target_width target_height =
          (case resize im (0, target_height) of
             Inl e \<Rightarrow> Inl e | Inr resized_image \<Rightarrow> Inr resized_image)"
    using assms by (simp add: resize_and_center_image_def q Let_def split: sum.splits)
  also have "\<dots> = (if width im = 0 \<and> target_height = height im then Inr im else Inl ValueError)"
    by (auto simp: resize_def)
  finally show ?thesis using q by simp
qed

theorem portrait_resize_rejected_witness:
  "0 \<le> width (Image RGB 150 400 []) \<and> width (Image RGB 150 400 []) < height (Image RGB 150 400 [])
   \<and> height (Image RGB 150 400 []) < 2 ^ 31 \<and> (0::int) < 200
   \<and> resize_and_center_image (Image RGB 150 400 []) 200 300 = Inl ValueError"
  using portrait_resize_rejected[of "Image RGB 150 400 []" 200 300] by simp

section \<open>The compositor\<close>

lemma py_int_half_difference:
  "py_int (real_of_int a / 2 - real_of_int b / 2) =
     (if b \<le> a then \<lfloor>real_of_int a / 2 - real_of_int b / 2\<rfloor>
      else \<lceil>real_of_int a / 2 - real_of_int b / 2\<rceil>)"
proof (cases "b \<le> a")
  case True
  then have "0 \<le> real_of_int a / 2 - real_of_int b / 2" by simp
  with True show ?thesis by (simp add: py_int_def)
next
  case False
  then have "real_of_int a / 2 - real_of_int b / 2 < 0" by simp
  with False show ?thesis by (simp add: py_int_def)
qed

text \<open>
  C7, as stated, at a 100 by 100 display and a 201 by 201 cover: the cover is pasted at
  (-50, -50), while the floor of 100/2 - 201/2 is -51.
\<close>

theorem paste_offset_floor_counterexample:
  "history (fst (paste_and_save_album_image (Image RGB 100 100 [])
        (Image RGB 201 201 []) (100, 100) (Image RGBA 100 100 [])))
      = [Pasted (Image RGB 201 201 []) (- 50, - 50) None]
   \<and> \<lfloor>(100::real) / 2 - 201 / 2\<rfloor> = - 51"
  by (simp add: paste_and_save_album_image_def paste_def half_difference_exact py_int_def)

text \<open>
  C7, amended. For every display size and cover size (of absolute values below
  \<open>2 ^ 31\<close>), the cover is pasted at the truncation towards zero of
  display_width/2 - cover_width/2 and of display_height/2 - cover_height/2: the floor in
  a coordinate where the cover is not larger than the display, the ceiling in a
  coordinate where it is larger and the offset is negative.
\<close>

theorem paste_offset_truncates:
  assumes "\<bar>w\<bar> < 2 ^ 31" and "\<bar>h\<bar> < 2 ^ 31"
    and "\<bar>width cover\<bar> < 2 ^ 31" and "\<bar>height cover\<bar> < 2 ^ 31"
  shows "history (fst (paste_and_save_album_image bg cover (w, h) text)) =
     history bg @
       [Pasted cover
          (if width cover \<le> w
           then \<lfloor>real_of_int w / 2 - real_of_int (width cover) / 2\<rfloor>
           else \<lceil>real_of_int w / 2 - real_of_int (width cover) / 2\<rceil>,
           if height cover \<le> h
           then \<lfloor>real_of_int h / 2 - real_of_int (height cover) / 2\<rfloor>
           else \<lceil>real_of_int h / 2 - real_of_int (height cover) / 2\<rceil>)
          None]"
proof -
  have "fsub (int_truediv w 2) (int_truediv (width cover) 2)
      = real_of_int w / 2 - real_of_int (width cover) / 2"
    using assms by (intro half_difference_exact) simp_all
  moreover have "fsub (int_truediv h 2) (int_truediv (height cover) 2)
      = real_of_int h / 2 - real_of_int (height cover) / 2"
    using assms by (intro half_difference_exact) simp_all
  ultimately show ?thesis
    by (simp add: paste_and_save_album_image_def paste_def Let_def py_int_half_difference)
qed

theorem paste_offset_truncates_witness:
  "\<bar>100::int\<bar> < 2 ^ 31 \<and> \<bar>480::int\<bar> < 2 ^ 31
   \<and> \<bar>width (Image RGB 201 101 [])\<bar> < 2 ^ 31 \<and> \<bar>height (Image RGB 201 101 [])\<bar> < 2 ^ 31
   \<and> history (fst (paste_and_save_album_image (Image RGB 100 480 []) (Image RGB 201 101 [])
        (100, 480) (Image RGBA 100 480 [])))
      = [Pasted (Image RGB 201 101 []) (- 50, 189) None]"
  using paste_offset_truncates[of 100 480 "Image RGB 201 101 []" "Image RGB 100 480 []"
          "Image RGBA 100 480 []"]
  by simp

text \<open>
  C8. For a display of positive width and height and a text layer in mode RGBA, whatever
  the sizes of the background, the cover and the text layer, a canvas is written, and it
  has exactly the display's width and height and the opaque mode RGB.
\<close>

theorem final_canvas_size_and_mode:
  assumes "0 < w" and "0 < h" and "mode text = RGBA"
  shows "\<exists>out. snd (paste_and_save_album_image bg cover (w, h) text) = Inr out
            \<and> width out = w \<and> height out = h \<and> mode out = RGB"
  using assms
  by (simp add: paste_and_save_album_image_def paste_def Image_new_def Let_def)

theorem final_canvas_size_and_mode_witness:
  "(0::int) < 500 \<and> (0::int) < 500 \<and> mode (Image RGBA 480 320 []) = RGBA
   \<and> (\<exists>out. snd (paste_and_save_album_image (Image RGB 640 480 []) (Image RGB 100 100 [])
                    (500, 500) (Image RGBA 480 320 [])) = Inr out
          \<and> width out = 500 \<and> height out = 500 \<and> mode out = RGB)"
  using final_canvas_size_and_mode[of 500 500 "Image RGBA 480 320 []"
          "Image RGB 640 480 []" "Image RGB 100 100 []"]
  by simp


section \<open>The luminance and contrast evaluator\<close>

lemma channel_square_bound:
  assumes "0 \<le> x" and "x \<le> (255::int)"
  shows "x\<^sup>2 \<le> 65025"
proof -
  have "x * x \<le> 255 * 255" using assms by (intro mult_mono) auto
  then show ?thesis by (simp add: power2_eq_square)
qed

lemma sum_of_squares_bounds:
  assumes "0 \<le> r" "r \<le> 255" "0 \<le> g" "g \<le> 255" "0 \<le> b" "b \<le> (255::int)"
  shows "0 \<le> r\<^sup>2 + g\<^sup>2 + b\<^sup>2" and "r\<^sup>2 + g\<^sup>2 + b\<^sup>2 \<le> 1000000"
proof -
  have "r\<^sup>2 \<le> 65025" "g\<^sup>2 \<le> 65025" "b\<^sup>2 \<le> 65025"
    using assms by (simp_all add: channel_square_bound)
  then show "r\<^sup>2 + g\<^sup>2 + b\<^sup>2 \<le> 1000000" by simp
  show "0 \<le> r\<^sup>2 + g\<^sup>2 + b\<^sup>2" by simp
qed

lemma math_sqrt_less_iff:
  assumes "0 \<le> n" "n \<le> 1000000" "0 \<le> m" "m \<le> 1000000"
  shows "math_sqrt (float_of_int n) < math_sqrt (float_of_int m)
           \<longleftrightarrow> sqrt (real_of_int n) < sqrt (real_of_int m)"
proof (cases "n < m")
  case True
  then show ?thesis using math_sqrt_strict_mono[of n m] assms by simp
next
  case False
  then have "math_sqrt (float_of_int m) \<le> math_sqrt (float_of_int n)"
    using assms by (intro math_sqrt_mono) simp_all
  then show ?thesis using False by simp
qed

lemma find_darkest_color_pair:
  assumes "valid_color a" and "valid_color b"
  shows "find_darkest_color [a, b] =
     (if distance_from_black a > distance_from_black b then Inr [a, b] else Inr [b, a])"
proof -
  obtain r0 g0 b0 where a: "rgb a = (r0, g0, b0)" by (cases "rgb a") auto
  obtain r1 g1 b1 where b: "rgb b = (r1, g1, b1)" by (cases "rgb b") auto
  have ra: "0 \<le> r0\<^sup>2 + g0\<^sup>2 + b0\<^sup>2" "r0\<^sup>2 + g0\<^sup>2 + b0\<^sup>2 \<le> 1000000"
    using assms(1) a sum_of_squares_bounds[of r0 g0 b0] by (simp_all add: valid_color_def)
  have rb: "0 \<le> r1\<^sup>2 + g1\<^sup>2 + b1\<^sup>2" "r1\<^sup>2 + g1\<^sup>2 + b1\<^sup>2 \<le> 1000000"
    using assms(2) b sum_of_squares_bounds[of r1 g1 b1] by (simp_all add: valid_color_def)
  show ?thesis
    using math_sqrt_less_iff[OF rb ra]
    by (simp add: find_darkest_color_def distance_from_black_def a b Let_def)
qed

text \<open>
  C3, as stated, at black and white: black is the colour closer to black, and the result
  lists white first and black second.
\<close>

theorem find_darkest_color_counterexample:
  "find_darkest_color [\<lparr>rgb = (0, 0, 0)\<rparr>, \<lparr>rgb = (255, 255, 255)\<rparr>]
     = Inr [\<lparr>rgb = (255, 255, 255)\<rparr>, \<lparr>rgb = (0, 0, 0)\<rparr>]
   \<and> distance_from_black \<lparr>rgb = (0, 0, 0)\<rparr> < distance_from_black \<lparr>rgb = (255, 255, 255)\<rparr>"
  by (simp add: find_darkest_color_pair valid_color_def distance_from_black_def)

text \<open>
  C3, amended. For every pair of colours with channels from 0 to 255,
  \<open>find_darkest_color\<close> returns the two input colours with the colour farther from black
  first and the colour closer to black second; on equal distances the second argument
  comes first.
\<close>

theorem find_darkest_color_order:
  assumes "valid_color a" and "valid_color b"
  shows "\<exists>x y. find_darkest_color [a, b] = Inr [x, y]
        \<and> ((x = a \<and> y = b) \<or> (x = b \<and> y = a))
        \<and> distance_from_black y \<le> distance_from_black x
        \<and> (distance_from_black a = distance_from_black b \<longrightarrow> x = b \<and> y = a)"
  using assms by (auto simp: find_darkest_color_pair)

theorem find_darkest_color_order_witness:
  "valid_color \<lparr>rgb = (10, 20, 30)\<rparr> \<and> valid_color \<lparr>rgb = (200, 100, 50)\<rparr>
   \<and> find_darkest_color [\<lparr>rgb = (10, 20, 30)\<rparr>, \<lparr>rgb = (200, 100, 50)\<rparr>]
       = Inr [\<lparr>rgb = (200, 100, 50)\<rparr>, \<lparr>rgb = (10, 20, 30)\<rparr>]
   \<and> distance_from_black \<lparr>rgb = (10, 20, 30)\<rparr> \<le> distance_from_black \<lparr>rgb = (200, 100, 50)\<rparr>
   \<and> valid_color \<lparr>rgb = (3, 4, 0)\<rparr> \<and> valid_color \<lparr>rgb = (0, 0, 5)\<rparr>
   \<and> distance_from_black \<lparr>rgb = (3, 4, 0)\<rparr> = distance_from_black \<lparr>rgb = (0, 0, 5)\<rparr>
   \<and> find_darkest_color [\<lparr>rgb = (3, 4, 0)\<rparr>, \<lparr>rgb = (0, 0, 5)\<rparr>]
       = Inr [\<lparr>rgb = (0, 0, 5)\<rparr>, \<lparr>rgb = (3, 4, 0)\<rparr>]"
  using find_darkest_color_order[of "\<lparr>rgb = (10, 20, 30)\<rparr>" "\<lparr>rgb = (200, 100, 50)\<rparr>"]
        find_darkest_color_order[of "\<lparr>rgb = (3, 4, 0)\<rparr>" "\<lparr>rgb = (0, 0, 5)\<rparr>"]
  by (auto simp: valid_color_def distance_from_black_def)

text \<open>
  C4, as stated, at the two colours (1, 0, 0) and (0, 1, 0), which are at the same
  distance from black: each order of the arguments returns its second argument first, so
  the first element changes with the order.
\<close>

theorem find_darkest_color_swap_counterexample:
  "find_darkest_color [\<lparr>rgb = (1, 0, 0)\<rparr>, \<lparr>rgb = (0, 1, 0)\<rparr>]
     = Inr [\<lparr>rgb = (0, 1, 0)\<rparr>, \<lparr>rgb = (1, 0, 0)\<rparr>]
   \<and> find_darkest_color [\<lparr>rgb = (0, 1, 0)\<rparr>, \<lparr>rgb = (1, 0, 0)\<rparr>]
     = Inr [\<lparr>rgb = (1, 0, 0)\<rparr>, \<lparr>rgb = (0, 1, 0)\<rparr>]
   \<and> \<lparr>rgb = (0, 1, 0)\<rparr> \<noteq> \<lparr>rgb = (1::int, 0::int, 0::int)\<rparr>"
  by (simp add: find_darkest_color_def)

text \<open>
  C4, amended. For every pair of colours (with channels from 0 to 255) at different
  distances from black, the result of \<open>find_darkest_color\<close>, and so its first element,
  is the same in both orders of the arguments. For a pair at equal distances each order
  returns its second argument first.
\<close>

theorem find_darkest_color_swap:
  assumes "valid_color a" and "valid_color b"
  shows "(distance_from_black a \<noteq> distance_from_black b \<longrightarrow>
      (\<exists>x y. find_darkest_color [a, b] = Inr [x, y] \<and> find_darkest_color [b, a] = Inr [x, y]))
   \<and> (distance_from_black a = distance_from_black b \<longrightarrow>
        find_darkest_color [a, b] = Inr [b, a] \<and> find_darkest_color [b, a] = Inr [a, b])"
  using assms by (auto simp: find_darkest_color_pair)

theorem find_darkest_color_swap_witness:
  "valid_color \<lparr>rgb = (0, 0, 0)\<rparr> \<and> valid_color \<lparr>rgb = (255, 255, 255)\<rparr>
   \<and> distance_from_black \<lparr>rgb = (0, 0, 0)\<rparr> \<noteq> distance_from_black \<lparr>rgb = (255, 255, 255)\<rparr>
   \<and> find_darkest_color [\<lparr>rgb = (0, 0, 0)\<rparr>, \<lparr>rgb = (255, 255, 255)\<rparr>]
       = find_darkest_color [\<lparr>rgb = (255, 255, 255)\<rparr>, \<lparr>rgb = (0, 0, 0)\<rparr>]"
  using find_darkest_color_swap[of "\<lparr>rgb = (0, 0, 0)\<rparr>" "\<lparr>rgb = (255, 255, 255)\<rparr>"]
  by (auto simp: valid_color_def distance_from_black_def)

lemma rnd_one [simp]: "rnd 1 = 1"
  using rnd_of_int[of 1] by simp

lemma fadd_nonneg: "0 \<le> x \<Longrightarrow> 0 \<le> y \<Longrightarrow> 0 \<le> fadd x y"
  by (simp add: fadd_def rnd_nonneg)

lemma fmul_nonneg: "0 \<le> x \<Longrightarrow> 0 \<le> y \<Longrightarrow> 0 \<le> fmul x y"
  by (simp add: fmul_def rnd_nonneg)

lemma float_of_int_nonneg: "0 \<le> i \<Longrightarrow> 0 \<le> float_of_int i"
  by (simp add: float_of_int_def rnd_nonneg)

lemma luminance_nonneg:
  "valid_color c \<Longrightarrow> 0 \<le> calculate_relative_luminance c"
  by (auto simp: valid_color_def calculate_relative_luminance_def
        intro!: fadd_nonneg fmul_nonneg float_of_int_nonneg rnd_nonneg split: prod.splits)

lemma fadd_offset_pos:
  assumes "0 \<le> l"
  shows "0 < fadd l (rnd 0.05)"
proof -
  have p: "rnd (real_of_int 1 * 2 powi (- 5)) = real_of_int 1 * 2 powi (- 5)"
    by (rule rnd_representable) simp
  have "(2::real) powi (- 5) \<le> 0.05" by (simp add: power_int_minus_divide)
  from rnd_mono[OF this] p have c: "2 powi (- 5) \<le> rnd 0.05" by simp
  then have "(2::real) powi (- 5) \<le> l + rnd 0.05" using assms by linarith
  from rnd_mono[OF this] p have "2 powi (- 5) \<le> fadd l (rnd 0.05)" by (simp add: fadd_def)
  moreover have "(0::real) < 2 powi (- 5)" by simp
  ultimately show ?thesis by linarith
qed

lemma contrast_ratio_value:
  assumes "0 \<le> calculate_relative_luminance a" and "0 \<le> calculate_relative_luminance b"
  shows "calculate_contrast_ratio a b =
           Inr (fdiv (fadd (max (calculate_relative_luminance a) (calculate_relative_luminance b))
                        (rnd 0.05))
                     (fadd (min (calculate_relative_luminance a) (calculate_relative_luminance b))
                        (rnd 0.05)))"
  using assms fadd_offset_pos[OF assms(1)] fadd_offset_pos[OF assms(2)]
  by (auto simp: calculate_contrast_ratio_def Let_def max_def min_def)

text \<open>
  C6. For every two colours with channels in the range 0 to 255, the contrast ratio is
  the same in both orders of the arguments and is at least 1; the contrast ratio of a
  colour with itself is 1.
\<close>

theorem calculate_contrast_ratio_symmetric_ge_1:
  assumes "valid_color a" and "valid_color b"
  shows "(\<exists>x. calculate_contrast_ratio a b = Inr x
             \<and> calculate_contrast_ratio b a = Inr x \<and> 1 \<le> x)
       \<and> calculate_contrast_ratio a a = Inr 1"
proof -
  let ?la = "calculate_relative_luminance a" and ?lb = "calculate_relative_luminance b"
  let ?hi = "fadd (max ?la ?lb) (rnd 0.05)" and ?lo = "fadd (min ?la ?lb) (rnd 0.05)"
  have la: "0 \<le> ?la" and lb: "0 \<le> ?lb"
    using assms by (simp_all add: luminance_nonneg)
  have ab: "calculate_contrast_ratio a b = Inr (fdiv ?hi ?lo)"
    using la lb by (rule contrast_ratio_value)
  have ba: "calculate_contrast_ratio b a = Inr (fdiv ?hi ?lo)"
    using contrast_ratio_value[OF lb la] by (simp add: max.commute min.commute)
  have pos: "0 < ?lo" using la lb by (intro fadd_offset_pos) simp
  have "min ?la ?lb + rnd 0.05 \<le> max ?la ?lb + rnd 0.05" by simp
  then have "?lo \<le> ?hi" unfolding fadd_def by (rule rnd_mono)
  then have "1 \<le> ?hi / ?lo" using pos by (simp add: le_divide_eq)
  then have "rnd 1 \<le> rnd (?hi / ?lo)" by (rule rnd_mono)
  then have ge: "1 \<le> fdiv ?hi ?lo" by (simp add: fdiv_def)
  have "0 < fadd ?la (rnd 0.05)" using la by (rule fadd_offset_pos)
  then have self: "calculate_contrast_ratio a a = Inr 1"
    using contrast_ratio_value[OF la la] by (simp add: fdiv_def)
  show ?thesis using ab ba ge self by simp
qed

theorem calculate_contrast_ratio_symmetric_ge_1_witness:
  "valid_color \<lparr>rgb = (0, 0, 0)\<rparr> \<and> valid_color \<lparr>rgb = (255, 255, 255)\<rparr>
   \<and> (\<exists>x. calculate_contrast_ratio \<lparr>rgb = (0, 0, 0)\<rparr> \<lparr>rgb = (255, 255, 255)\<rparr> = Inr x
         \<and> calculate_contrast_ratio \<lparr>rgb = (255, 255, 255)\<rparr> \<lparr>rgb = (0, 0, 0)\<rparr> = Inr x
         \<and> 1 \<le> x)
   \<and> calculate_contrast_ratio \<lparr>rgb = (0, 0, 0)\<rparr> \<lparr>rgb = (0, 0, 0)\<rparr> = Inr 1"
  using calculate_contrast_ratio_symmetric_ge_1[of "\<lparr>rgb = (0, 0, 0)\<rparr>" "\<lparr>rgb = (255, 255, 255)\<rparr>"]
  by (simp add: valid_color_def)


section \<open>The text renderer\<close>

text \<open>
  For channels from 0 to 255 the double value of the weighted sum is within \<open>2 ^ - 40\<close>
  of the exact weighted sum, which is a multiple of 1/1000.
\<close>

lemma rnd_error_1024:
  assumes "\<bar>x\<bar> \<le> 1024"
  shows "\<bar>rnd x - x\<bar> \<le> 1 / 2 ^ 43"
proof -
  have "\<bar>rnd x - x\<bar> \<le> \<bar>x\<bar> / 2 ^ 53" by (rule rnd_error)
  also have "\<dots> \<le> 1024 / 2 ^ 53" using assms by (simp add: divide_right_mono)
  also have "\<dots> = 1 / 2 ^ 43" by simp
  finally show ?thesis .
qed

lemma weighted_channel_error:
  assumes "0 \<le> r" and "r \<le> 255" and "0 \<le> w" and "w \<le> 1"
  shows "\<bar>fmul (float_of_int r) (rnd w) - real_of_int r * w\<bar> \<le> 1 / 2 ^ 42"
proof -
  define p where "p = real_of_int r * rnd w"
  define q where "q = real_of_int r * w"
  have fr: "float_of_int r = real_of_int r"
    using assms by (simp add: float_of_int_def rnd_of_int)
  have "\<bar>rnd w - w\<bar> \<le> \<bar>w\<bar> / 2 ^ 53" by (rule rnd_error)
  also have "\<dots> \<le> 1 / 2 ^ 53" using assms by (simp add: divide_right_mono)
  finally have cw: "\<bar>rnd w - w\<bar> \<le> 1 / 2 ^ 53" .
  have "p - q = real_of_int r * (rnd w - w)"
    by (simp add: p_def q_def algebra_simps)
  then have "\<bar>p - q\<bar> = real_of_int r * \<bar>rnd w - w\<bar>"
    using assms by (simp add: abs_mult)
  also have "\<dots> \<le> 255 * (1 / 2 ^ 53)"
    using assms cw by (intro mult_mono) auto
  also have "\<dots> = 255 / 2 ^ 53" by simp
  finally have 1: "\<bar>p - q\<bar> \<le> 255 / 2 ^ 53" .
  have "(255::real) / 2 ^ 53 \<le> 1" by simp
  with 1 have p1: "\<bar>p - q\<bar> \<le> 1" by (rule order_trans)
  have "q \<le> 255 * 1" unfolding q_def using assms by (intro mult_mono) auto
  moreover have "0 \<le> q" using assms by (simp add: q_def)
  ultimately have "\<bar>p\<bar> \<le> 1024" using p1 by linarith
  then have 2: "\<bar>rnd p - p\<bar> \<le> 1 / 2 ^ 43"
    by (rule rnd_error_1024)
  have "\<bar>rnd p - q\<bar> \<le> \<bar>rnd p - p\<bar> + \<bar>p - q\<bar>" by linarith
  also have "\<dots> \<le> 1 / 2 ^ 43 + 255 / 2 ^ 53" using 1 2 by (rule add_mono[rotated])
  also have "\<dots> \<le> 1 / 2 ^ 42" by simp
  finally show ?thesis by (simp add: fmul_def fr p_def q_def)
qed

lemma brightness_error:
  assumes "0 \<le> r" "r \<le> 255" "0 \<le> g" "g \<le> 255" "0 \<le> b" "b \<le> 255"
  shows "\<bar>fadd (fadd (fmul (float_of_int r) (rnd 0.299)) (fmul (float_of_int g) (rnd 0.587)))
             (fmul (float_of_int b) (rnd 0.114))
          - real_of_int (299 * r + 587 * g + 114 * b) / 1000\<bar> \<le> 1 / 2 ^ 40"
proof -
  define t1 where "t1 = fmul (float_of_int r) (rnd 0.299)"
  define t2 where "t2 = fmul (float_of_int g) (rnd 0.587)"
  define t3 where "t3 = fmul (float_of_int b) (rnd 0.114)"
  define a1 where "a1 = real_of_int r * 0.299"
  define a2 where "a2 = real_of_int g * 0.587"
  define a3 where "a3 = real_of_int b * 0.114"
  define d :: real where "d = 1 / 2 ^ 43"
  have d: "0 \<le> d" "d \<le> 1" by (simp_all add: d_def)
  have dd: "1 / 2 ^ 42 = 2 * d" "1 / 2 ^ 40 = 8 * d" by (simp_all add: d_def)
  have e1: "\<bar>t1 - a1\<bar> \<le> 2 * d"
    unfolding t1_def a1_def dd[symmetric] using assms by (intro weighted_channel_error) simp_all
  have e2: "\<bar>t2 - a2\<bar> \<le> 2 * d"
    unfolding t2_def a2_def dd[symmetric] using assms by (intro weighted_channel_error) simp_all
  have e3: "\<bar>t3 - a3\<bar> \<le> 2 * d"
    unfolding t3_def a3_def dd[symmetric] using assms by (intro weighted_channel_error) simp_all
  have ab: "0 \<le> a1" "a1 \<le> 255" "0 \<le> a2" "a2 \<le> 255" "0 \<le> a3" "a3 \<le> 255"
    using assms by (simp_all add: a1_def a2_def a3_def)
  have "\<bar>t1 + t2\<bar> \<le> 1024" using e1 e2 ab d by linarith
  then have s1: "\<bar>fadd t1 t2 - (t1 + t2)\<bar> \<le> d"
    unfolding fadd_def d_def by (rule rnd_error_1024)
  have "\<bar>fadd t1 t2 + t3\<bar> \<le> 1024" using s1 e1 e2 e3 ab d by linarith
  then have s2: "\<bar>fadd (fadd t1 t2) t3 - (fadd t1 t2 + t3)\<bar> \<le> d"
    unfolding fadd_def d_def by (rule rnd_error_1024)
  have ex: "real_of_int (299 * r + 587 * g + 114 * b) / 1000 = a1 + a2 + a3"
    by (simp add: a1_def a2_def a3_def)
  have "\<bar>fadd (fadd t1 t2) t3 - (a1 + a2 + a3)\<bar> \<le> 8 * d"
    using e1 e2 e3 s1 s2 d by linarith
  then show ?thesis
    unfolding t1_def[symmetric] t2_def[symmetric] t3_def[symmetric] ex dd .
qed

text \<open>
  The brightness of every colour whose exact weighted sum is 186, but for
  (170, 226, 22), is at most 186: each candidate is evaluated.
\<close>

lemmas rnd_eval = rnd_def exponent_def compute_bitlen round_half_even_def Let_def
  power_int_minus_divide

lemma weights:
  "rnd 0.299 = 5386305154335113 / 2 ^ 54"
  "rnd 0.587 = 2643612981266481 / 2 ^ 52"
  "rnd 0.114 = 8214565720323785 / 2 ^ 56"
  by (simp_all add: rnd_eval)

lemmas tie_eval = upto_rec_numeral tie_check_def text_brightness_def fadd_def fmul_def
  float_of_int_def weights rnd_eval

lemma tie_check_138_150:
  "list_all (\<lambda>g. tie_check g 0 \<and> tie_check g 1 \<and> tie_check g 2) [138..150]"
  by (simp add: tie_eval)

lemma tie_check_151_163:
  "list_all (\<lambda>g. tie_check g 0 \<and> tie_check g 1 \<and> tie_check g 2) [151..163]"
  by (simp add: tie_eval)

lemma tie_check_164_176:
  "list_all (\<lambda>g. tie_check g 0 \<and> tie_check g 1 \<and> tie_check g 2) [164..176]"
  by (simp add: tie_eval)

lemma tie_check_177_189:
  "list_all (\<lambda>g. tie_check g 0 \<and> tie_check g 1 \<and> tie_check g 2) [177..189]"
  by (simp add: tie_eval)

lemma tie_check_190_202:
  "list_all (\<lambda>g. tie_check g 0 \<and> tie_check g 1 \<and> tie_check g 2) [190..202]"
  by (simp add: tie_eval)

lemma tie_check_203_215:
  "list_all (\<lambda>g. tie_check g 0 \<and> tie_check g 1 \<and> tie_check g 2) [203..215]"
  by (simp add: tie_eval)

lemma tie_check_216_228:
  "list_all (\<lambda>g. tie_check g 0 \<and> tie_check g 1 \<and> tie_check g 2) [216..228]"
  by (simp add: tie_eval)

lemma tie_check_229_241:
  "list_all (\<lambda>g. tie_check g 0 \<and> tie_check g 1 \<and> tie_check g 2) [229..241]"
  by (simp add: tie_eval)

lemma tie_check_242_255:
  "list_all (\<lambda>g. tie_check g 0 \<and> tie_check g 1 \<and> tie_check g 2) [242..255]"
  by (simp add: tie_eval)

lemma tie_check_all:
  assumes "138 \<le> g" and "g \<le> 255"
  shows "tie_check g 0 \<and> tie_check g 1 \<and> tie_check g 2"
proof -
  consider "138 \<le> g" "g \<le> 150"
    | "151 \<le> g" "g \<le> 163"
    | "164 \<le> g" "g \<le> 176"
    | "177 \<le> g" "g \<le> 189"
    | "190 \<le> g" "g \<le> 202"
    | "203 \<le> g" "g \<le> 215"
    | "216 \<le> g" "g \<le> 228"
    | "229 \<le> g" "g \<le> 241"
    | "242 \<le> g" "g \<le> 255"
    using assms by linarith
  then show ?thesis
  proof cases
    case 1
    then have "g \<in> set [138..150]"
      by (simp only: set_upto atLeastAtMost_iff simp_thms)
    then show ?thesis using tie_check_138_150 by (simp only: list_all_iff)
  next
    case 2
    then have "g \<in> set [151..163]"
      by (simp only: set_upto atLeastAtMost_iff simp_thms)
    then show ?thesis using tie_check_151_163 by (simp only: list_all_iff)
  next
    case 3
    then have "g \<in> set [164..176]"
      by (simp only: set_upto atLeastAtMost_iff simp_thms)
    then show ?thesis using tie_check_164_176 by (simp only: list_all_iff)
  next
    case 4
    then have "g \<in> set [177..189]"
      by (simp only: set_upto atLeastAtMost_iff simp_thms)
    then show ?thesis using tie_check_177_189 by (simp only: list_all_iff)
  next
    case 5
    then have "g \<in> set [190..202]"
      by (simp only: set_upto atLeastAtMost_iff simp_thms)
    then show ?thesis using tie_check_190_202 by (simp only: list_all_iff)
  next
    case 6
    then have "g \<in> set [203..215]"
      by (simp only: set_upto atLeastAtMost_iff simp_thms)
    then show ?thesis using tie_check_203_215 by (simp only: list_all_iff)
  next
    case 7
    then have "g \<in> set [216..228]"
      by (simp only: set_upto atLeastAtMost_iff simp_thms)
    then show ?thesis using tie_check_216_228 by (simp only: list_all_iff)
  next
    case 8
    then have "g \<in> set [229..241]"
      by (simp only: set_upto atLeastAtMost_iff simp_thms)
    then show ?thesis using tie_check_229_241 by (simp only: list_all_iff)
  next
    case 9
    then have "g \<in> set [242..255]"
      by (simp only: set_upto atLeastAtMost_iff simp_thms)
    then show ?thesis using tie_check_242_255 by (simp only: list_all_iff)
  qed
qed

lemma tie_residue:
  assumes eq: "299 * r + 587 * g + 114 * b = (186000::int)"
  shows "(53 * (186000 - 587 * g)) mod 114 = r mod 114"
proof -
  from eq have "53 * (299 * r + 587 * g + 114 * b) = 53 * 186000" by simp
  then have "53 * (186000 - 587 * g) = r + 114 * (139 * r + 53 * b)"
    by (simp add: algebra_simps)
  then have "(53 * (186000 - 587 * g)) mod 114 = (r + 114 * (139 * r + 53 * b)) mod 114"
    by (simp only:)
  also have "\<dots> = r mod 114" by (rule mod_mult_self2)
  finally show ?thesis .
qed

lemma tie_white:
  assumes "0 \<le> r" "r \<le> 255" "0 \<le> g" "g \<le> 255" "0 \<le> b" "b \<le> 255"
    and eq: "299 * r + 587 * g + 114 * b = 186000"
    and ne: "(r, g, b) \<noteq> (170, 226, 22)"
  shows "text_brightness r g b \<le> 186"
proof -
  define q where "q = r div 114"
  have g: "138 \<le> g" using assms by linarith
  have r: "(53 * (186000 - 587 * g)) mod 114 + 114 * q = r"
    unfolding tie_residue[OF eq] by (simp add: q_def)
  have q: "q = 0 \<or> q = 1 \<or> q = 2"
  proof -
    have "0 \<le> q" using assms by (simp add: q_def pos_imp_zdiv_nonneg_iff)
    moreover have "q < 3" using assms by (simp add: q_def div_less_iff_less_mult)
    ultimately show ?thesis by linarith
  qed
  have m: "186000 - 587 * g - 299 * r = 114 * b" using eq by linarith
  have nrg: "\<not> (r = 170 \<and> g = 226)" using ne eq by auto
  have "tie_check g q" using tie_check_all[OF g assms(4)] q by auto
  then show ?thesis
    using assms nrg unfolding tie_check_def Let_def r m by simp
qed

text \<open>
  For (170, 226, 22) the exact weighted sum is 186 and the brightness is
  186.00000000000003.
\<close>

lemma brightness_tie: "text_brightness 170 226 22 = 6544293208522753 / 2 ^ 45"
  by (simp add: text_brightness_def fadd_def fmul_def float_of_int_def weights rnd_eval)

lemma text_brightness_exceeds_iff:
  assumes "0 \<le> r" "r \<le> 255" "0 \<le> g" "g \<le> 255" "0 \<le> b" "b \<le> 255"
  shows "text_brightness r g b > 186 \<longleftrightarrow>
           0.299 * real_of_int r + 0.587 * real_of_int g + 0.114 * real_of_int b > 186
           \<or> (r, g, b) = (170, 226, 22)"
proof -
  define N where "N = 299 * r + 587 * g + 114 * b"
  define F where "F = text_brightness r g b"
  have err: "\<bar>F - real_of_int N / 1000\<bar> \<le> 1 / 2 ^ 40"
    unfolding F_def N_def text_brightness_def using assms by (rule brightness_error)
  have tiny: "(1::real) / 2 ^ 40 < 1 / 1000" by simp
  have ex: "0.299 * real_of_int r + 0.587 * real_of_int g + 0.114 * real_of_int b
      = real_of_int N / 1000"
    by (simp add: N_def)
  consider "186000 < N" | "N < 186000" | "N = 186000" by linarith
  then have "F > 186 \<longleftrightarrow> real_of_int N / 1000 > 186 \<or> (r, g, b) = (170, 226, 22)"
  proof cases
    case 1
    then have "186001 \<le> N" by simp
    then have "(186001::real) \<le> real_of_int N" by linarith
    then have "186 + 1 / 1000 \<le> real_of_int N / 1000" by simp
    then have "F > 186" "real_of_int N / 1000 > 186" using err tiny by linarith+
    then show ?thesis by simp
  next
    case 2
    then have "N \<le> 185999" by simp
    then have "real_of_int N \<le> 185999" by linarith
    then have le: "real_of_int N / 1000 \<le> 186 - 1 / 1000" by simp
    then have "\<not> F > 186" "\<not> real_of_int N / 1000 > 186" using err tiny by linarith+
    moreover have "(r, g, b) \<noteq> (170, 226, 22)" using 2 by (auto simp: N_def)
    ultimately show ?thesis by simp
  next
    case 3
    then have n: "\<not> real_of_int N / 1000 > 186" by simp
    show ?thesis
    proof (cases "(r, g, b) = (170, 226, 22)")
      case True
      then have "F = 6544293208522753 / 2 ^ 45" by (simp add: F_def brightness_tie)
      then have "F > 186" by simp
      then show ?thesis using True by simp
    next
      case False
      have "F \<le> 186" unfolding F_def using assms 3[unfolded N_def] False by (rule tie_white)
      then show ?thesis using False n by simp
    qed
  qed
  then show ?thesis unfolding F_def ex .
qed

text \<open>
  C5, as stated, at a palette whose first colour is (170, 226, 22): the weighted sum
  0.299 * 170 + 0.587 * 226 + 0.114 * 22 is 186 and does not exceed 186, and the text
  is drawn black.
\<close>

theorem generate_text_image_exact_sum_counterexample:
  "generate_text_image True ''t'' ''a'' [\<lparr>rgb = (170, 226, 22)\<rparr>] (480, 320) 50 50 =
     Inr (Image RGBA 480 320 [TextDrawn (50, 50) (''t'' @ [CHR 0x0A] @ ''a'') (0, 0, 0)])
   \<and> \<not> (0.299 * 170 + 0.587 * 226 + 0.114 * 22 > (186::real))"
proof -
  have "text_brightness 170 226 22 > 186" by (simp add: brightness_tie)
  then show ?thesis
    by (simp add: generate_text_image_def Image_new_def draw_text_def
          text_brightness_def)
qed

text \<open>
  C5, amended. For every palette with at least one colour (with channels from 0 to 255,
  on a display of non-negative size, with the font at hand), the text is drawn with a
  fill that depends on the first palette entry alone: black (0, 0, 0) if the double value
  of R * 0.299 + G * 0.587 + B * 0.114 for that entry exceeds 186, which it does exactly
  when the exact weighted sum exceeds 186 or the entry is (170, 226, 22); white
  (255, 255, 255) otherwise. A first entry (255, 255, 255) gives black and a first entry
  (0, 0, 0) gives white. The fill has three channels: it is drawn fully opaque.
\<close>

theorem generate_text_image_fill:
  assumes "rgb c = (r, g, b)" and "valid_color c" and "0 \<le> w" and "0 \<le> h"
  shows "\<exists>fill.
           generate_text_image True song_title artist_name (c # cs) (w, h) x y =
             Inr (Image RGBA w h
                    [TextDrawn (x, y) (song_title @ [CHR 0x0A] @ artist_name) fill])
         \<and> fill = (if 0.299 * real_of_int r + 0.587 * real_of_int g
                          + 0.114 * real_of_int b > 186
                        \<or> (r, g, b) = (170, 226, 22)
                    then (0, 0, 0) else (255, 255, 255))
         \<and> (rgb c = (255, 255, 255) \<longrightarrow> fill = (0, 0, 0))
         \<and> (rgb c = (0, 0, 0) \<longrightarrow> fill = (255, 255, 255))"
proof -
  define fill :: "int \<times> int \<times> int" where
    "fill = (if text_brightness r g b > 186 then (0, 0, 0) else (255, 255, 255))"
  have v: "0 \<le> r" "r \<le> 255" "0 \<le> g" "g \<le> 255" "0 \<le> b" "b \<le> 255"
    using assms by (simp_all add: valid_color_def)
  note iff = text_brightness_exceeds_iff[OF v]
  have res: "generate_text_image True song_title artist_name (c # cs) (w, h) x y =
             Inr (Image RGBA w h
                    [TextDrawn (x, y) (song_title @ [CHR 0x0A] @ artist_name) fill])"
    using assms
    by (simp add: generate_text_image_def Image_new_def draw_text_def fill_def
          text_brightness_def)
  have f: "fill = (if 0.299 * real_of_int r + 0.587 * real_of_int g
                          + 0.114 * real_of_int b > 186
                        \<or> (r, g, b) = (170, 226, 22)
                    then (0, 0, 0) else (255, 255, 255))"
    unfolding fill_def iff ..
  have white: "fill = (0, 0, 0)" if "rgb c = (255, 255, 255)"
  proof -
    from that assms(1) have "r = 255" "g = 255" "b = 255" by simp_all
    then show ?thesis unfolding f by simp
  qed
  have black: "fill = (255, 255, 255)" if "rgb c = (0, 0, 0)"
  proof -
    from that assms(1) have "r = 0" "g = 0" "b = 0" by simp_all
    then show ?thesis unfolding f by simp
  qed
  show ?thesis using res f white black by blast
qed

theorem generate_text_image_fill_witness:
  "rgb \<lparr>rgb = (255, 255, 255)\<rparr> = (255, 255, 255) \<and> valid_color \<lparr>rgb = (255, 255, 255)\<rparr>
   \<and> (0::int) \<le> 480 \<and> (0::int) \<le> 320
   \<and> generate_text_image True ''Song'' ''Artist''
         [\<lparr>rgb = (255, 255, 255)\<rparr>, \<lparr>rgb = (10, 20, 30)\<rparr>] (480, 320) 50 50
       = Inr (Image RGBA 480 320 [TextDrawn (50, 50) (''Song'' @ [CHR 0x0A] @ ''Artist'') (0, 0, 0)])"
  using generate_text_image_fill[of "\<lparr>rgb = (255, 255, 255)\<rparr>" 255 255 255 480 320
          "''Song''" "''Artist''" "[\<lparr>rgb = (10, 20, 30)\<rparr>]" 50 50]
  by (auto simp: valid_color_def)

section \<open>Invalid geometry\<close>

text \<open>
  C9, as stated, at a display of size (0, 0): \<open>generate_text_image\<close> checks nothing,
  allocates an empty layer, draws into it and returns it.
\<close>

theorem no_geometry_validation_counterexample:
  "generate_text_image True ''t'' ''a'' [\<lparr>rgb = (0, 0, 0)\<rparr>] (0, 0) 50 50 =
     Inr (Image RGBA 0 0 [TextDrawn (50, 50) (''t'' @ [CHR 0x0A] @ ''a'') (255, 255, 255)])"
  by (simp add: generate_text_image_def Image_new_def draw_text_def
        fadd_def fmul_def float_of_int_def)

text \<open>
  C9, amended. The module validates no geometry itself. A source image of height 0 makes
  \<open>resize_and_center_image\<close> raise ZeroDivisionError before any image operation. A
  negative display width or height makes \<open>generate_text_image\<close> raise ValueError when it
  allocates the layer, before anything is drawn, and makes
  \<open>paste_and_save_album_image\<close> raise ValueError when it allocates the canvas, so that
  nothing is written.
\<close>

theorem geometry_failures:
  "(height im = 0 \<longrightarrow>
      resize_and_center_image im target_width target_height = Inl ZeroDivisionError)
   \<and> (w < 0 \<or> h < 0 \<longrightarrow>
        generate_text_image font song_title artist_name (c # cs) (w, h) x y = Inl ValueError
      \<and> snd (paste_and_save_album_image bg cover (w, h) text) = Inl ValueError)"
  by (auto simp: resize_and_center_image_def generate_text_image_def
        paste_and_save_album_image_def paste_def Image_new_def Let_def split: prod.splits)

theorem geometry_failures_witness:
  "height (Image RGB 400 0 []) = 0
   \<and> resize_and_center_image (Image RGB 400 0 []) 200 300 = Inl ZeroDivisionError
   \<and> ((- 1::int) < 0 \<or> (300::int) < 0)
   \<and> generate_text_image True ''t'' ''a'' [\<lparr>rgb = (0, 0, 0)\<rparr>] (- 1, 300) 50 50 = Inl ValueError"
  using geometry_failures[of "Image RGB 400 0 []" 200 300 "- 1" 300 True "''t''" "''a''"
          "\<lparr>rgb = (0, 0, 0)\<rparr>" "[]" 50 50]
  by simp

end
